theory Spec2Isabelle
  imports Complex_Main "HOL-Library.Word" "HOL-Library.Log_Nat"
begin

section \<open>The bladeRF receive block: lib/bladerf/bladerf_source_c.cc\<close>

text \<open>
  The block is a C++ class whose member functions read and write a handful of members and
  call into three collaborators that are not part of the file: the C library
  (\<^verbatim>\<open>realloc\<close>), the device driver (\<^verbatim>\<open>bladerf_sync_rx\<close>,
  \<^verbatim>\<open>bladerf_set_bandwidth\<close>, \<^verbatim>\<open>bladerf_get_bandwidth\<close>) and VOLK
  (\<^verbatim>\<open>volk_16i_s32f_convert_32f\<close>). The embedding is state passing: a member function
  takes the object and returns the object it leaves behind. What a collaborator answers is
  an argument of the model, so every theorem holds for every answer. An exception is the
  left summand of the result and carries the object as the throw leaves it; undefined
  behaviour of C++ (a signed overflow, an access beyond the allocated block, a conversion
  out of range) is a left summand too, which the model names instead of inventing a result
  for it.

  Numbers: \<^verbatim>\<open>int16_t\<close> and \<^verbatim>\<open>uint32_t\<close> are words. \<^verbatim>\<open>int\<close> values are
  mathematical integers; where the C++ arithmetic on them is not defined (a negative count,
  a signed overflow) the model returns \<open>Undefined_behaviour\<close>. The \<^verbatim>\<open>float\<close> values of the conversion are the real numbers they denote: division of a
  16-bit integer by 2048 is exact in binary32 (see \<open>volk_result_is_binary32\<close> below).
  \<^verbatim>\<open>double\<close> values are binary64 numbers, a significand and an exponent, and their
  product rounds to nearest, ties to even, as the hardware's does.
\<close>

type_synonym int16_t = "16 word"
type_synonym uint32_t = "32 word"

text \<open>
  The value \<^verbatim>\<open>work\<close> returns: a number of items produced, or the sentinel of the
  host framework that ends the stream (a negative constant of the framework, so it differs
  from every count that a defined cycle returns).
\<close>

datatype work_return = Items int | WORK_DONE

text \<open>
  The board revisions \<^verbatim>\<open>get_board_type\<close> can report. Only \<^verbatim>\<open>BLADERF_REV_2\<close>
  is named in this file; the other two stand for every other answer.
\<close>

datatype bladerf_board_type = BLADERF_REV_INVALID | BLADERF_REV_1 | BLADERF_REV_2

subsection \<open>Doubles\<close>

text \<open>
  A \<^verbatim>\<open>double\<close>: \<open>Finite m e\<close> is the number \<open>m * 2 ^ e\<close> (several pairs denote the
  same number, and the sign of a zero is not kept: nothing here depends on it),
  \<open>Infinity neg\<close> is an infinity with its sign. A binary64 number has a significand
  of at most 53 bits and an exponent of at least -1074, and is below \<open>2 ^ 1024\<close> in
  magnitude.
\<close>

datatype double = Finite int int | Infinity bool | NaN

definition ldexp :: "int \<Rightarrow> int \<Rightarrow> real" where
  "ldexp m e = real_of_int m * 2 powi e"

definition is_binary64 :: "double \<Rightarrow> bool" where
  "is_binary64 x =
     (case x of Finite m e \<Rightarrow> bitlen \<bar>m\<bar> \<le> 53 \<and> - 1074 \<le> e \<and> bitlen \<bar>m\<bar> + e \<le> 1024
      | _ \<Rightarrow> True)"

text \<open>
  The binary64 number nearest to \<open>m * 2 ^ e\<close>, ties to the even significand: \<open>k\<close> is
  the number of low bits that do not fit (the significand has 53 bits, and no bit lies
  below \<open>2 ^ -1074\<close>); a result of magnitude \<open>2 ^ 1024\<close> or more is an infinity.
\<close>

definition round_to_double :: "int \<Rightarrow> int \<Rightarrow> double" where
  "round_to_double m e =
     (let k = max (bitlen \<bar>m\<bar> - 53) (- 1074 - e);
          (m', e') =
            (if k \<le> 0 then (m, e)
             else (let q = m div 2 ^ nat k; r = m mod 2 ^ nat k; h = 2 ^ nat (k - 1)
                   in (if r < h \<or> (r = h \<and> even q) then q else q + 1, e + k)))
      in if 1024 < bitlen \<bar>m'\<bar> + e' then Infinity (m < 0) else Finite m' e')"

text \<open>The product of two doubles.\<close>

fun double_mult :: "double \<Rightarrow> double \<Rightarrow> double" where
  "double_mult (Finite m1 e1) (Finite m2 e2) = round_to_double (m1 * m2) (e1 + e2)"
| "double_mult NaN y = NaN"
| "double_mult x NaN = NaN"
| "double_mult (Infinity a) (Infinity b) = Infinity (a \<noteq> b)"
| "double_mult (Infinity a) (Finite m e) = (if m = 0 then NaN else Infinity (a \<noteq> (m < 0)))"
| "double_mult (Finite m e) (Infinity a) = (if m = 0 then NaN else Infinity (a \<noteq> (m < 0)))"

text \<open>The comparison \<^verbatim>\<open>x == 0.0\<close>, and the literal \<^verbatim>\<open>0.75\<close>.\<close>

fun double_is_zero :: "double \<Rightarrow> bool" where
  "double_is_zero (Finite m e) = (m = 0)"
| "double_is_zero x = False"

definition three_quarters :: double where
  "three_quarters = Finite 3 (- 2)"

text \<open>
  The device behind \<^verbatim>\<open>_dev\<close>, as far as this file asks the common layer about it:
  the board revision (\<^verbatim>\<open>get_board_type\<close>) and the receive sample rate
  (\<^verbatim>\<open>bladerf_common::get_sample_rate\<close>).
\<close>

record bladerf =
  board_type :: bladerf_board_type
  sample_rate :: double

text \<open>
  Modelled from the spec: the members \<^verbatim>\<open>_conv_buf\<close>, \<^verbatim>\<open>_conv_buf_size\<close> and
  \<^verbatim>\<open>_consecutive_failures\<close> and the constant \<^verbatim>\<open>MAX_CONSECUTIVE_FAILURES\<close> are
  declared in the header of the common layer, which is not among the sources. The spec gives
  the scratch buffer as interleaved 16-bit signed samples with a capacity in samples, the
  counter as an integer, and the threshold as 3. The counter is taken as a C++
  \<^verbatim>\<open>unsigned int\<close> of 32 bits, whose increment wraps around. The list \<open>conv_buf\<close> is
  the allocated block: its length is the number of \<^verbatim>\<open>int16_t\<close> elements allocated.
\<close>

record bladerf_source_c =
  dev :: bladerf
  conv_buf :: "int16_t list"
  conv_buf_size :: int
  consecutive_failures :: "32 word"

text \<open>
  A \<^verbatim>\<open>std::runtime_error\<close> with its message and the object as the throw leaves it, or
  undefined behaviour.
\<close>

datatype error = Runtime_error string bladerf_source_c | Undefined_behaviour

definition MAX_CONSECUTIVE_FAILURES :: "32 word" where
  "MAX_CONSECUTIVE_FAILURES = 3"

text \<open>Line 135: \<^verbatim>\<open>const float scaling = 2048.0f\<close>.\<close>

definition scaling :: real where
  "scaling = 2048"

subsection \<open>The collaborators of one work cycle\<close>

text \<open>
  What the C library and the driver answer during one call of \<^verbatim>\<open>work\<close>: whether
  \<^verbatim>\<open>realloc\<close> returns \<^verbatim>\<open>NULL\<close>, what the new part of a grown block holds
  (indeterminate in C, so chosen by the environment), the status \<^verbatim>\<open>bladerf_sync_rx\<close>
  returns and the samples it stored at the start of the buffer before returning. The
  metadata descriptor of lines 153-157 is only an argument of the driver call and has no
  other use in \<^verbatim>\<open>work\<close>; since the driver's answer is an argument here, it does not
  appear.
\<close>

record cycle =
  realloc_null :: bool
  realloc_fresh :: "nat \<Rightarrow> int16_t"
  sync_rx_ret :: int
  sync_rx_data :: "int16_t list"

text \<open>\<^verbatim>\<open>realloc\<close> on success: a block of \<open>m\<close> elements that keeps the old contents.\<close>

definition realloc :: "int16_t list \<Rightarrow> nat \<Rightarrow> (nat \<Rightarrow> int16_t) \<Rightarrow> int16_t list" where
  "realloc old m fresh = map (\<lambda>i. if i < length old then old ! i else fresh i) [0..<m]"

text \<open>
  \<^verbatim>\<open>bladerf_sync_rx\<close>: the driver stores at most \<open>num_samples\<close> pairs at the start of
  the buffer and returns its status (0 is success).
\<close>

definition bladerf_sync_rx :: "int16_t list \<Rightarrow> nat \<Rightarrow> cycle \<Rightarrow> int \<times> int16_t list" where
  "bladerf_sync_rx samples num_samples c =
     (let d = take (2 * num_samples) (sync_rx_data c)
      in (sync_rx_ret c, d @ drop (length d) samples))"

text \<open>
  Modelled from the spec: \<^verbatim>\<open>volk_16i_s32f_convert_32f\<close> is VOLK's kernel, not among the
  sources. The spec gives it as the conversion of each 16-bit signed integer to floating
  point by dividing by the scale factor. The result list is what the kernel writes to its
  output: \<open>num_points\<close> floats.
\<close>

definition volk_16i_s32f_convert_32f :: "int16_t list \<Rightarrow> real \<Rightarrow> nat \<Rightarrow> real list" where
  "volk_16i_s32f_convert_32f inputVector scalar num_points =
     map (\<lambda>x. real_of_int (sint x) / scalar) (take num_points inputVector)"

text \<open>
  The output buffer is an array of \<^verbatim>\<open>gr_complex\<close>, written through a
  \<^verbatim>\<open>float *\<close>: two consecutive floats are the real and the imaginary part of one item.
\<close>

fun gr_complex_items :: "real list \<Rightarrow> complex list" where
  "gr_complex_items (re # im # rest) = Complex re im # gr_complex_items rest"
| "gr_complex_items rest = []"

subsection \<open>work\<close>

text \<open>
  Lines 140-151: the scratch buffer grows when the request exceeds its size. The size is
  assigned (line 143) before \<^verbatim>\<open>realloc\<close> is called; when \<^verbatim>\<open>realloc\<close> fails the
  function throws, and the object it leaves behind has the raised size and the old block.
  \<^verbatim>\<open>_conv_buf_size * 2\<close> is an \<^verbatim>\<open>int\<close> product.
\<close>

definition ensure_conv_buf :: "bladerf_source_c \<Rightarrow> int \<Rightarrow> cycle \<Rightarrow> error + bladerf_source_c" where
  "ensure_conv_buf s noutput_items c =
     (if noutput_items > conv_buf_size s then
        (let s1 = s\<lparr>conv_buf_size := noutput_items\<rparr>
         in if 2 ^ 30 \<le> conv_buf_size s1 then Inl Undefined_behaviour
            else if realloc_null c then Inl (Runtime_error ''workFailed to realloc _conv_buf'' s1)
            else Inr (s1\<lparr>conv_buf :=
                   realloc (conv_buf s1) (nat (conv_buf_size s1 * 2)) (realloc_fresh c)\<rparr>))
      else Inr s)"

text \<open>
  Lines 130-182. The result is the returned value, the floats written to the output buffer
  (none when the function returns before the conversion) and the object afterwards. A
  negative request, a request whose double overflows \<^verbatim>\<open>int\<close> and a transfer or
  conversion beyond the allocated block are undefined behaviour.
\<close>

definition work ::
  "bladerf_source_c \<Rightarrow> int \<Rightarrow> cycle \<Rightarrow> error + (work_return \<times> real list \<times> bladerf_source_c)" where
  "work s noutput_items c =
     (if noutput_items < 0 \<or> 2 ^ 30 \<le> noutput_items then Inl Undefined_behaviour
      else case ensure_conv_buf s noutput_items c of
        Inl e \<Rightarrow> Inl e
      | Inr s1 \<Rightarrow>
          if length (conv_buf s1) < nat (2 * noutput_items) then Inl Undefined_behaviour
          else
            let (ret, buf) = bladerf_sync_rx (conv_buf s1) (nat noutput_items) c;
                s2 = s1\<lparr>conv_buf := buf\<rparr>;
                s3 = (if ret \<noteq> 0
                      then s2\<lparr>consecutive_failures := consecutive_failures s2 + 1\<rparr>
                      else s2\<lparr>consecutive_failures := 0\<rparr>)
            in if ret \<noteq> 0 \<and> MAX_CONSECUTIVE_FAILURES \<le> consecutive_failures s3
               then Inr (WORK_DONE, [], s3)
               else Inr (Items noutput_items,
                         volk_16i_s32f_convert_32f (conv_buf s3) scaling (nat (2 * noutput_items)),
                         s3))"

text \<open>
  A host that invokes \<^verbatim>\<open>work\<close> again and again, with the request and the collaborators'
  answers of each cycle. An exception ends the run, as it ends the thread of the framework's scheduler (what a
  host that catches the exception and goes on finds is the object the error carries). This
  host does not stop at
  \<open>WORK_DONE\<close>: what \<^verbatim>\<open>work\<close> does when it is invoked after giving the signal is part
  of its behaviour.
\<close>

fun run ::
  "bladerf_source_c \<Rightarrow> (int \<times> cycle) list \<Rightarrow> error + (work_return list \<times> bladerf_source_c)" where
  "run s [] = Inr ([], s)"
| "run s ((n, c) # cs) =
     (case work s n c of
        Inl e \<Rightarrow> Inl e
      | Inr (r, out, s') \<Rightarrow>
          (case run s' cs of
             Inl e \<Rightarrow> Inl e
           | Inr (rs, s'') \<Rightarrow> Inr (r # rs, s'')))"

text \<open>
  The state the initialisation of the common layer (not among the sources) leaves behind
  satisfies this: the allocated block has two elements per sample of the recorded size.
\<close>

definition conv_buf_ok :: "bladerf_source_c \<Rightarrow> bool" where
  "conv_buf_ok s = (0 \<le> conv_buf_size s \<and> length (conv_buf s) = nat (conv_buf_size s * 2))"

subsection \<open>Frequency correction and antenna\<close>

text \<open>
  Lines 224-234 and 281-304. \<^verbatim>\<open>BLADERF_CHANNEL_RX\<close> is a macro of the driver's header,
  not among the sources: it is an argument. A setter returns its value and the object it
  leaves behind.
\<close>

definition get_freq_corr :: "bladerf_source_c \<Rightarrow> nat \<Rightarrow> real" where
  "get_freq_corr s chan = 0"

definition set_freq_corr ::
  "(nat \<Rightarrow> nat) \<Rightarrow> bladerf_source_c \<Rightarrow> real \<Rightarrow> nat \<Rightarrow> real \<times> bladerf_source_c" where
  "set_freq_corr BLADERF_CHANNEL_RX s ppm chan = (get_freq_corr s (BLADERF_CHANNEL_RX chan), s)"

definition get_antennas :: "bladerf_source_c \<Rightarrow> nat \<Rightarrow> string list" where
  "get_antennas s chan =
     (let antennas = [''RX0'']
      in if BLADERF_REV_2 = board_type (dev s) then antennas @ [''RX1''] else antennas)"

definition get_antenna :: "bladerf_source_c \<Rightarrow> nat \<Rightarrow> string" where
  "get_antenna s chan = ''RX0''"

definition set_antenna ::
  "(nat \<Rightarrow> nat) \<Rightarrow> bladerf_source_c \<Rightarrow> string \<Rightarrow> nat \<Rightarrow> string \<times> bladerf_source_c" where
  "set_antenna BLADERF_CHANNEL_RX s antenna chan = (get_antenna s (BLADERF_CHANNEL_RX chan), s)"

subsection \<open>Bandwidth\<close>

text \<open>
  Lines 358-389. What the driver answers to \<^verbatim>\<open>bladerf_set_bandwidth\<close> and
  \<^verbatim>\<open>bladerf_get_bandwidth\<close> (a status, and the bandwidth it reports) and the text
  \<^verbatim>\<open>bladerf_strerror\<close> gives for a status are arguments; what the block asks of the
  driver is part of the result, as the list of driver calls in the order they are made.
\<close>

record bandwidth_replies =
  set_bandwidth_ret :: int
  get_bandwidth_ret :: int
  get_bandwidth_value :: uint32_t
  bladerf_strerror :: "int \<Rightarrow> string"

datatype driver_call = Bladerf_set_bandwidth uint32_t | Bladerf_get_bandwidth

text \<open>
  The conversion \<^verbatim>\<open>(uint32_t)bandwidth\<close> of a \<^verbatim>\<open>double\<close>: truncation towards
  zero, and undefined behaviour when the truncated value is not a \<^verbatim>\<open>uint32_t\<close> (so
  for an infinity and for a NaN).
\<close>

fun to_uint32_t :: "double \<Rightarrow> uint32_t option" where
  "to_uint32_t (Finite m e) =
     (let x = ldexp m e
      in if x \<le> - 1 \<or> 2 ^ 32 \<le> x then None
         else Some (word_of_int (if 0 \<le> x then \<lfloor>x\<rfloor> else \<lceil>x\<rceil>)))"
| "to_uint32_t x = None"

text \<open>The conversion \<^verbatim>\<open>(double)bandwidth\<close> of a \<^verbatim>\<open>uint32_t\<close>, which is exact.\<close>

definition of_uint32_t :: "uint32_t \<Rightarrow> double" where
  "of_uint32_t v = Finite (uint v) 0"

text \<open>Lines 204-207: the sample rate the common layer reports for the receive direction.\<close>

definition get_sample_rate :: "bladerf_source_c \<Rightarrow> double" where
  "get_sample_rate s = sample_rate (dev s)"

definition get_bandwidth ::
  "bladerf_source_c \<Rightarrow> bandwidth_replies \<Rightarrow> nat \<Rightarrow> driver_call list \<times> (error + double)" where
  "get_bandwidth s d chan =
     ([Bladerf_get_bandwidth],
      if get_bandwidth_ret d \<noteq> 0
      then Inl (Runtime_error (''get_bandwidth could not get bandwidth:''
                               @ bladerf_strerror d (get_bandwidth_ret d)) s)
      else Inr (of_uint32_t (get_bandwidth_value d)))"

definition set_bandwidth ::
  "bladerf_source_c \<Rightarrow> bandwidth_replies \<Rightarrow> double \<Rightarrow> nat \<Rightarrow> driver_call list \<times> (error + double)" where
  "set_bandwidth s d bandwidth chan =
     (let bandwidth = (if double_is_zero bandwidth
                       then double_mult (get_sample_rate s) three_quarters else bandwidth)
      in case to_uint32_t bandwidth of
           None \<Rightarrow> ([], Inl Undefined_behaviour)
         | Some request \<Rightarrow>
             if set_bandwidth_ret d \<noteq> 0
             then ([Bladerf_set_bandwidth request],
                   Inl (Runtime_error (''set_bandwidth could not set bandwidth: ''
                                       @ bladerf_strerror d (set_bandwidth_ret d)) s))
             else (let (calls, result) = get_bandwidth s d 0
                   in (Bladerf_set_bandwidth request # calls, result)))"

subsection \<open>Cycles and concrete inputs\<close>

text \<open>
  A cycle whose transfer is performed (the request is in the range where the C++ arithmetic
  is defined and \<^verbatim>\<open>realloc\<close> does not fail) and fails, or succeeds. When the buffer
  need not grow, \<^verbatim>\<open>realloc\<close> is not called and its answer plays no role.
\<close>

definition transfer_fails :: "int \<Rightarrow> cycle \<Rightarrow> bool" where
  "transfer_fails n c = (0 \<le> n \<and> n < 2 ^ 30 \<and> \<not> realloc_null c \<and> sync_rx_ret c \<noteq> 0)"

definition transfer_succeeds :: "int \<Rightarrow> cycle \<Rightarrow> bool" where
  "transfer_succeeds n c = (0 \<le> n \<and> n < 2 ^ 30 \<and> \<not> realloc_null c \<and> sync_rx_ret c = 0)"

text \<open>
  A freshly initialised block with a scratch buffer of two samples, a cycle whose transfer
  fails without storing anything, and cycles whose transfer succeeds.
\<close>

definition adapter0 :: bladerf_source_c where
  "adapter0 = \<lparr>dev = \<lparr>board_type = BLADERF_REV_1, sample_rate = Finite 1000000 0\<rparr>,
               conv_buf = [0, 0, 0, 0], conv_buf_size = 2, consecutive_failures = 0\<rparr>"

definition rx_fail :: cycle where
  "rx_fail = \<lparr>realloc_null = False, realloc_fresh = (\<lambda>i. 0), sync_rx_ret = - 1,
              sync_rx_data = []\<rparr>"

definition rx_ok :: "int16_t list \<Rightarrow> cycle" where
  "rx_ok samples = \<lparr>realloc_null = False, realloc_fresh = (\<lambda>i. 0), sync_rx_ret = 0,
                    sync_rx_data = samples\<rparr>"

text \<open>
  A block whose scratch buffer still holds the samples of an earlier cycle and whose counter
  is at 1; a block on a device running at 1000001 samples per second; a driver that accepts
  the bandwidth and reports \<open>actual\<close>.
\<close>

definition stale :: bladerf_source_c where
  "stale = adapter0\<lparr>conv_buf := [2048, - 2048, 0, 1024], consecutive_failures := 1\<rparr>"

definition rate_1000001 :: bladerf_source_c where
  "rate_1000001 = adapter0\<lparr>dev := \<lparr>board_type = BLADERF_REV_1, sample_rate = Finite 1000001 0\<rparr>\<rparr>"

definition driver_ok :: "uint32_t \<Rightarrow> bandwidth_replies" where
  "driver_ok actual = \<lparr>set_bandwidth_ret = 0, get_bandwidth_ret = 0, get_bandwidth_value = actual,
                       bladerf_strerror = (\<lambda>ret. [])\<rparr>"

text \<open>
  A cycle in which \<^verbatim>\<open>realloc\<close> returns \<^verbatim>\<open>NULL\<close>; a device whose sample rate is
  \<open>2 ^ 40\<close>, and one whose sample rate is the double 3752999689475413 * 2 ^ -49 (about
  6.67).
\<close>

definition rx_nomem :: cycle where
  "rx_nomem = \<lparr>realloc_null = True, realloc_fresh = (\<lambda>i. 0), sync_rx_ret = 0,
               sync_rx_data = []\<rparr>"

definition rate_too_high :: bladerf_source_c where
  "rate_too_high = adapter0\<lparr>dev := \<lparr>board_type = BLADERF_REV_1, sample_rate = Finite 1 40\<rparr>\<rparr>"

definition rate_tie :: bladerf_source_c where
  "rate_tie = adapter0\<lparr>dev := \<lparr>board_type = BLADERF_REV_1,
                                 sample_rate = Finite 3752999689475413 (- 49)\<rparr>\<rparr>"

section \<open>Theorems\<close>

subsection \<open>One cycle\<close>

lemma sync_rx_length:
  "2 * k \<le> length samples \<Longrightarrow> length (snd (bladerf_sync_rx samples k c)) = length samples"
  by (simp add: bladerf_sync_rx_def Let_def)

lemma realloc_length: "length (realloc old m fresh) = m"
  by (simp add: realloc_def)

lemma ensure_conv_buf_Inr:
  assumes "ensure_conv_buf s n c = Inr s1"
  shows "conv_buf_size s1 = max n (conv_buf_size s)"
    and "consecutive_failures s1 = consecutive_failures s"
    and "dev s1 = dev s"
    and "conv_buf_ok s \<Longrightarrow> conv_buf_ok s1"
  using assms
  by (auto simp: ensure_conv_buf_def Let_def conv_buf_ok_def realloc_length split: if_splits)

lemma ensure_conv_buf_total:
  assumes "n < 2 ^ 30" and "conv_buf_size s < n \<Longrightarrow> \<not> realloc_null c"
  shows "\<exists>s1. ensure_conv_buf s n c = Inr s1"
  using assms by (auto simp: ensure_conv_buf_def Let_def)

lemma work_eq:
  assumes "ensure_conv_buf s n c = Inr s1" and "0 \<le> n" and "n < 2 ^ 30"
    and "nat (2 * n) \<le> length (conv_buf s1)"
  shows "work s n c =
     (let s3 = s1\<lparr>conv_buf := snd (bladerf_sync_rx (conv_buf s1) (nat n) c),
                   consecutive_failures :=
                     (if sync_rx_ret c \<noteq> 0 then consecutive_failures s1 + 1 else 0)\<rparr>
      in if sync_rx_ret c \<noteq> 0 \<and> MAX_CONSECUTIVE_FAILURES \<le> consecutive_failures s3
         then Inr (WORK_DONE, [], s3)
         else Inr (Items n, volk_16i_s32f_convert_32f (conv_buf s3) scaling (nat (2 * n)), s3))"
  using assms by (simp add: work_def Let_def bladerf_sync_rx_def)

lemma work_Inr_pre:
  assumes "work s n c = Inr res"
  shows "\<exists>s1. ensure_conv_buf s n c = Inr s1
          \<and> 0 \<le> n \<and> n < 2 ^ 30 \<and> nat (2 * n) \<le> length (conv_buf s1)"
  using assms by (simp add: work_def split: if_splits sum.splits)

lemma work_Inr:
  assumes "work s n c = Inr (r, out, s')"
  shows "\<exists>s1. ensure_conv_buf s n c = Inr s1
          \<and> 0 \<le> n \<and> n < 2 ^ 30 \<and> nat (2 * n) \<le> length (conv_buf s1)
          \<and> conv_buf_size s' = conv_buf_size s1
          \<and> dev s' = dev s1
          \<and> conv_buf s' = snd (bladerf_sync_rx (conv_buf s1) (nat n) c)
          \<and> consecutive_failures s' =
              (if sync_rx_ret c \<noteq> 0 then consecutive_failures s + 1 else 0)
          \<and> r = (if sync_rx_ret c \<noteq> 0 \<and> MAX_CONSECUTIVE_FAILURES \<le> consecutive_failures s'
                 then WORK_DONE else Items n)
          \<and> out = (if r = WORK_DONE then []
                   else volk_16i_s32f_convert_32f (conv_buf s') scaling (nat (2 * n)))"
proof -
  obtain s1 where pre: "ensure_conv_buf s n c = Inr s1" "0 \<le> n" "n < 2 ^ 30"
      "nat (2 * n) \<le> length (conv_buf s1)"
    using work_Inr_pre [OF assms] by blast
  have cf: "consecutive_failures s1 = consecutive_failures s"
    using ensure_conv_buf_Inr(2) [OF pre(1)] .
  show ?thesis
    using assms pre cf unfolding work_eq [OF pre]
    by (auto simp: Let_def split: if_splits)
qed

lemma work_cycle:
  assumes "conv_buf_ok s" and "0 \<le> n" and "n < 2 ^ 30"
    and "conv_buf_size s < n \<Longrightarrow> \<not> realloc_null c"
  shows "\<exists>out s'. work s n c =
            Inr (if sync_rx_ret c \<noteq> 0 \<and> MAX_CONSECUTIVE_FAILURES \<le> consecutive_failures s + 1
                 then WORK_DONE else Items n, out, s')
          \<and> conv_buf_ok s'
          \<and> conv_buf_size s' = max n (conv_buf_size s)
          \<and> consecutive_failures s' =
              (if sync_rx_ret c \<noteq> 0 then consecutive_failures s + 1 else 0)"
proof -
  obtain s1 where s1: "ensure_conv_buf s n c = Inr s1"
    using ensure_conv_buf_total [OF assms(3,4)] by blast
  note e = ensure_conv_buf_Inr [OF s1]
  have ok1: "conv_buf_ok s1" using e(4) assms(1) by simp
  then have len: "nat (2 * n) \<le> length (conv_buf s1)"
    using assms(2) e(1) by (simp add: conv_buf_ok_def)
  then have "2 * nat n \<le> length (conv_buf s1)" using assms(2) by simp
  then have len': "length (snd (bladerf_sync_rx (conv_buf s1) (nat n) c)) = length (conv_buf s1)"
    by (rule sync_rx_length)
  show ?thesis
    unfolding work_eq [OF s1 assms(2,3) len]
    using ok1 len' e(1,2) by (simp add: Let_def conv_buf_ok_def)
qed

lemma work_fails:
  assumes "conv_buf_ok s" and "transfer_fails n c"
  shows "\<exists>out s'. work s n c =
            Inr (if MAX_CONSECUTIVE_FAILURES \<le> consecutive_failures s + 1
                 then WORK_DONE else Items n, out, s')
          \<and> conv_buf_ok s'
          \<and> consecutive_failures s' = consecutive_failures s + 1"
  using work_cycle [of s n c] assms by (auto simp: transfer_fails_def)

lemma work_succeeds:
  assumes "conv_buf_ok s" and "transfer_succeeds n c"
  shows "\<exists>out s'. work s n c = Inr (Items n, out, s')
          \<and> conv_buf_ok s' \<and> consecutive_failures s' = 0"
  using work_cycle [of s n c] assms by (auto simp: transfer_succeeds_def)

lemma work_done_output:
  assumes "work s n c = Inr (WORK_DONE, out, s')"
  shows "out = [] \<and> sync_rx_ret c \<noteq> 0 \<and> MAX_CONSECUTIVE_FAILURES \<le> consecutive_failures s'"
  using work_Inr [OF assms] by (auto split: if_splits)

lemma work_conv_buf_ok:
  assumes "work s n c = Inr (r, out, s')" and "conv_buf_ok s"
  shows "conv_buf_ok s' \<and> conv_buf_size s \<le> conv_buf_size s'
         \<and> length (conv_buf s) \<le> length (conv_buf s')"
proof -
  obtain s1 where s1: "ensure_conv_buf s n c = Inr s1" and n: "0 \<le> n"
      and len: "nat (2 * n) \<le> length (conv_buf s1)"
      and sz: "conv_buf_size s' = conv_buf_size s1"
      and buf: "conv_buf s' = snd (bladerf_sync_rx (conv_buf s1) (nat n) c)"
    using work_Inr [OF assms(1)] by blast
  note e = ensure_conv_buf_Inr [OF s1]
  have ok1: "conv_buf_ok s1" using e(4) assms(2) by simp
  have "2 * nat n \<le> length (conv_buf s1)" using len n by simp
  then have "length (conv_buf s') = length (conv_buf s1)"
    unfolding buf by (rule sync_rx_length)
  then show ?thesis
    using ok1 sz e(1) assms(2) by (simp add: conv_buf_ok_def)
qed

subsection \<open>Runs\<close>

lemma run_Cons_Inr:
  assumes "run s ((n, c) # cs) = Inr (rs, s')"
  shows "\<exists>r out s1 rs1. work s n c = Inr (r, out, s1) \<and> run s1 cs = Inr (rs1, s') \<and> rs = r # rs1"
  using assms by (auto split: sum.splits prod.splits)

lemma run_length: "run s cs = Inr (rs, s') \<Longrightarrow> length rs = length cs"
proof (induction cs arbitrary: s rs)
  case Nil
  then show ?case by simp
next
  case (Cons a cs)
  obtain n c where a: "a = (n, c)" by (cases a)
  from Cons.prems obtain r s1 rs1 where
    "run s1 cs = Inr (rs1, s')" "rs = r # rs1"
    unfolding a using run_Cons_Inr by blast
  then show ?case using Cons.IH by simp
qed

lemma run_conv_buf_ok:
  "run s cs = Inr (rs, s') \<Longrightarrow> conv_buf_ok s \<Longrightarrow>
     conv_buf_ok s' \<and> conv_buf_size s \<le> conv_buf_size s'
     \<and> length (conv_buf s) \<le> length (conv_buf s')"
proof (induction cs arbitrary: s rs)
  case Nil
  then show ?case by simp
next
  case (Cons a cs)
  obtain n c where a: "a = (n, c)" by (cases a)
  from Cons.prems(1) obtain r out s1 rs1 where
    w: "work s n c = Inr (r, out, s1)" and r: "run s1 cs = Inr (rs1, s')"
    unfolding a using run_Cons_Inr by blast
  note step = work_conv_buf_ok [OF w Cons.prems(2)]
  from Cons.IH [OF r] step show ?case by auto
qed

lemma run_all_fail_done:
  "conv_buf_ok s \<Longrightarrow> MAX_CONSECUTIVE_FAILURES \<le> consecutive_failures s \<Longrightarrow>
   \<forall>(n, c) \<in> set cs. transfer_fails n c \<Longrightarrow>
   unat (consecutive_failures s) + length cs < 2 ^ 32 \<Longrightarrow>
   \<exists>s'. run s cs = Inr (replicate (length cs) WORK_DONE, s')"
proof (induction cs arbitrary: s)
  case Nil
  then show ?case by simp
next
  case (Cons a cs)
  obtain n c where a: "a = (n, c)" by (cases a)
  have f: "transfer_fails n c" using Cons.prems(3) a by simp
  have nowrap: "unat (consecutive_failures s) + unat (1 :: 32 word) < 2 ^ LENGTH(32)"
    using Cons.prems(4) by simp
  have u: "unat (consecutive_failures s + 1) = unat (consecutive_failures s) + 1"
    using nowrap unat_add_lem [of "consecutive_failures s" 1] by simp
  have ge: "MAX_CONSECUTIVE_FAILURES \<le> consecutive_failures s + 1"
    using Cons.prems(2) u by (simp add: word_le_nat_alt)
  obtain out s1 where w: "work s n c = Inr (WORK_DONE, out, s1)"
      and ok1: "conv_buf_ok s1" and cf1: "consecutive_failures s1 = consecutive_failures s + 1"
    using work_fails [OF Cons.prems(1) f] ge by auto
  have "\<exists>s'. run s1 cs = Inr (replicate (length cs) WORK_DONE, s')"
  proof (rule Cons.IH [OF ok1])
    show "MAX_CONSECUTIVE_FAILURES \<le> consecutive_failures s1" using ge cf1 by simp
    show "\<forall>(n, c) \<in> set cs. transfer_fails n c" using Cons.prems(3) by simp
    show "unat (consecutive_failures s1) + length cs < 2 ^ 32"
      using Cons.prems(4) u cf1 by simp
  qed
  then show ?case using w a by auto
qed

lemma work_counter_step:
  assumes "work s n c = Inr (r, out, s')"
  shows "r \<noteq> WORK_DONE \<Longrightarrow> consecutive_failures s' < MAX_CONSECUTIVE_FAILURES"
    and "consecutive_failures s < MAX_CONSECUTIVE_FAILURES \<Longrightarrow>
           consecutive_failures s' \<le> MAX_CONSECUTIVE_FAILURES"
proof -
  from work_Inr [OF assms] have
    cf: "consecutive_failures s' = (if sync_rx_ret c \<noteq> 0 then consecutive_failures s + 1 else 0)"
    and r: "r = (if sync_rx_ret c \<noteq> 0 \<and> MAX_CONSECUTIVE_FAILURES \<le> consecutive_failures s'
                 then WORK_DONE else Items n)"
    by blast+
  show "r \<noteq> WORK_DONE \<Longrightarrow> consecutive_failures s' < MAX_CONSECUTIVE_FAILURES"
    using cf r by (auto simp: MAX_CONSECUTIVE_FAILURES_def split: if_splits)
  show "consecutive_failures s' \<le> MAX_CONSECUTIVE_FAILURES"
    if lt: "consecutive_failures s < MAX_CONSECUTIVE_FAILURES"
  proof (cases "sync_rx_ret c \<noteq> 0")
    case True
    have "unat (consecutive_failures s) < 3"
      using lt by (simp add: word_less_nat_alt MAX_CONSECUTIVE_FAILURES_def)
    then have "unat (consecutive_failures s) + unat (1 :: 32 word) < 2 ^ LENGTH(32)"
      by simp
    then have "unat (consecutive_failures s + 1) = unat (consecutive_failures s) + 1"
      using unat_add_lem [of "consecutive_failures s" 1] by simp
    then show ?thesis
      using cf True \<open>unat (consecutive_failures s) < 3\<close>
      by (simp add: word_le_nat_alt MAX_CONSECUTIVE_FAILURES_def)
  next
    case False
    then show ?thesis using cf by simp
  qed
qed

lemma run_counter_bounded:
  "run s cs = Inr (rs, s') \<Longrightarrow> consecutive_failures s < MAX_CONSECUTIVE_FAILURES \<Longrightarrow>
   WORK_DONE \<notin> set (butlast rs) \<Longrightarrow>
   consecutive_failures s' \<le> MAX_CONSECUTIVE_FAILURES"
proof (induction cs arbitrary: s rs)
  case Nil
  then show ?case by simp
next
  case (Cons a cs)
  obtain n c where a: "a = (n, c)" by (cases a)
  from Cons.prems(1) obtain r out s1 rs1 where
    w: "work s n c = Inr (r, out, s1)" and r: "run s1 cs = Inr (rs1, s')" and rs: "rs = r # rs1"
    unfolding a using run_Cons_Inr by blast
  show ?case
  proof (cases cs)
    case Nil
    then have "s' = s1" using r by simp
    then show ?thesis using work_counter_step(2) [OF w Cons.prems(2)] by simp
  next
    case (Cons b cs')
    then have "rs1 \<noteq> []" using run_length [OF r] by auto
    then have "r \<noteq> WORK_DONE" and "WORK_DONE \<notin> set (butlast rs1)"
      using Cons.prems(3) rs by auto
    then show ?thesis
      using Cons.IH [OF r] work_counter_step(1) [OF w] by simp
  qed
qed

subsection \<open>Conversion\<close>

lemma gr_complex_items_length: "length (gr_complex_items xs) = length xs div 2"
  by (induction xs rule: gr_complex_items.induct) simp_all

lemma gr_complex_items_nth:
  "i < length xs div 2 \<Longrightarrow>
     gr_complex_items xs ! i = Complex (xs ! (2 * i)) (xs ! (2 * i + 1))"
proof (induction xs arbitrary: i rule: gr_complex_items.induct)
  case (1 re im rest)
  then show ?case by (cases i) simp_all
qed simp_all

lemma volk_length:
  "length (volk_16i_s32f_convert_32f xs k m) = min (length xs) m"
  by (simp add: volk_16i_s32f_convert_32f_def)

text \<open>
  Every quotient by the scale factor 2048 is an integer of at most 16 bits times
  \<open>2 ^ -11\<close>: a binary32 number (24-bit significand, exponents down to -149). The
  conversion to \<^verbatim>\<open>float\<close> and the division therefore do not round, and the real
  quotient of the model is the float the kernel stores.
\<close>

lemma volk_result_is_binary32:
  "real_of_int (sint (x :: int16_t)) / scaling = real_of_int (sint x) * 2 powi (- 11)
   \<and> \<bar>sint x\<bar> < 2 ^ 24"
proof -
  have "sint x < 2 ^ (LENGTH(16) - 1)" and "- (2 ^ (LENGTH(16) - 1)) \<le> sint x"
    by (rule sint_lt, rule sint_ge)
  then have "\<bar>sint x\<bar> < 2 ^ 24" by simp
  moreover have "(2::real) powi (- 11) = 1 / 2048"
    by (simp add: power_int_minus divide_simps)
  ultimately show ?thesis by (simp add: scaling_def)
qed

text \<open>
  C6. The conversion divides each raw 16-bit sample by the scale factor 2048: the raw value
  2048 becomes 1, -2048 becomes -1 and 0 becomes 0.
\<close>

theorem convert_scaling_2048:
  "volk_16i_s32f_convert_32f [x] scaling 1 = [real_of_int (sint x) / 2048]
   \<and> volk_16i_s32f_convert_32f [2048, - 2048, 0] scaling 3 = [1, - 1, 0]
   \<and> work adapter0 2 (rx_ok [2048, - 2048, 0, 1024])
       = Inr (Items 2, [1, - 1, 0, 1 / 2], adapter0\<lparr>conv_buf := [2048, - 2048, 0, 1024]\<rparr>)"
  by (simp add: volk_16i_s32f_convert_32f_def scaling_def adapter0_def rx_ok_def work_def
      ensure_conv_buf_def bladerf_sync_rx_def MAX_CONSECUTIVE_FAILURES_def Let_def)

subsection \<open>Stubs\<close>

text \<open>
  C9. \<^verbatim>\<open>get_freq_corr\<close> returns 0 for every channel and every object, also the object
  a \<^verbatim>\<open>set_freq_corr\<close> leaves behind; \<^verbatim>\<open>set_freq_corr\<close> returns the getter's value, 0,
  for every ppm argument and leaves the object as it was: no correction is applied.
\<close>

theorem freq_corr_stub:
  "get_freq_corr s chan = 0
   \<and> set_freq_corr rx s ppm chan = (0, s)
   \<and> get_freq_corr (snd (set_freq_corr rx s ppm chan)) chan' = 0"
  by (simp add: get_freq_corr_def set_freq_corr_def)

text \<open>
  C10. \<^verbatim>\<open>get_antenna\<close> returns "RX0" for every channel and every board revision, also
  on the revision where \<^verbatim>\<open>get_antennas\<close> lists "RX0" and "RX1"; \<^verbatim>\<open>set_antenna\<close>
  returns "RX0" for every antenna argument.
\<close>

theorem antenna_always_RX0:
  "get_antenna s chan = ''RX0''
   \<and> fst (set_antenna rx s antenna chan) = ''RX0''
   \<and> get_antennas (s\<lparr>dev := (dev s)\<lparr>board_type := BLADERF_REV_2\<rparr>\<rparr>) chan = [''RX0'', ''RX1'']
   \<and> get_antenna (s\<lparr>dev := (dev s)\<lparr>board_type := BLADERF_REV_2\<rparr>\<rparr>) chan = ''RX0''
   \<and> fst (set_antenna rx (s\<lparr>dev := (dev s)\<lparr>board_type := BLADERF_REV_2\<rparr>\<rparr>) ''RX1'' chan) = ''RX0''"
  by (simp add: get_antenna_def set_antenna_def get_antennas_def)

subsection \<open>The consecutive-failure counter\<close>

text \<open>
  C1, as stated: after three consecutive failed transfers the next invocation returns the
  terminal signal. It does not when its transfer succeeds: the three failing cycles below
  return 2, 2 and \<open>WORK_DONE\<close> (the third failing invocation itself gives the signal), and the
  invocation after them returns the count 2.
\<close>

theorem next_invocation_after_three_failures_counterexample:
  "run adapter0 [(2, rx_fail), (2, rx_fail), (2, rx_fail), (2, rx_ok [2048, - 2048, 0, 1024])]
     = Inr ([Items 2, Items 2, WORK_DONE, Items 2],
            adapter0\<lparr>conv_buf := [2048, - 2048, 0, 1024], consecutive_failures := 0\<rparr>)
   \<and> [Items 2, Items 2, WORK_DONE, Items 2] ! 3 \<noteq> WORK_DONE"
  by (simp add: adapter0_def rx_fail_def rx_ok_def work_def ensure_conv_buf_def bladerf_sync_rx_def
      MAX_CONSECUTIVE_FAILURES_def Let_def word_le_nat_alt)

text \<open>
  C1, amended: starting with the counter at 0, the first two cycles whose transfers fail
  return their requested counts, and the invocation in which the third consecutive transfer
  fails returns \<open>WORK_DONE\<close> itself, before any conversion, leaving the counter at the
  threshold.
\<close>

theorem third_failed_transfer_returns_done:
  assumes "conv_buf_ok s" and "consecutive_failures s = 0"
    and "transfer_fails n1 c1" and "transfer_fails n2 c2" and "transfer_fails n3 c3"
  shows "\<exists>s2 s3. run s [(n1, c1), (n2, c2)] = Inr ([Items n1, Items n2], s2)
           \<and> work s2 n3 c3 = Inr (WORK_DONE, [], s3)
           \<and> consecutive_failures s3 = MAX_CONSECUTIVE_FAILURES"
proof -
  obtain o1 s1 where w1: "work s n1 c1 = Inr (Items n1, o1, s1)"
      and ok1: "conv_buf_ok s1" and cf1: "consecutive_failures s1 = 1"
    using work_fails [OF assms(1,3)] assms(2)
    by (auto simp: MAX_CONSECUTIVE_FAILURES_def word_le_nat_alt)
  obtain o2 s2 where w2: "work s1 n2 c2 = Inr (Items n2, o2, s2)"
      and ok2: "conv_buf_ok s2" and cf2: "consecutive_failures s2 = 2"
    using work_fails [OF ok1 assms(4)] cf1
    by (auto simp: MAX_CONSECUTIVE_FAILURES_def word_le_nat_alt)
  obtain o3 s3 where w3: "work s2 n3 c3 = Inr (WORK_DONE, o3, s3)"
      and cf3: "consecutive_failures s3 = 3"
    using work_fails [OF ok2 assms(5)] cf2
    by (auto simp: MAX_CONSECUTIVE_FAILURES_def word_le_nat_alt)
  have "o3 = []" using work_done_output [OF w3] by simp
  then show ?thesis
    using w1 w2 w3 cf3 by (auto simp: MAX_CONSECUTIVE_FAILURES_def)
qed

theorem third_failed_transfer_returns_done_witness:
  "conv_buf_ok adapter0 \<and> consecutive_failures adapter0 = 0 \<and> transfer_fails 2 rx_fail
   \<and> (\<exists>s2 s3. run adapter0 [(2, rx_fail), (2, rx_fail)] = Inr ([Items 2, Items 2], s2)
           \<and> work s2 2 rx_fail = Inr (WORK_DONE, [], s3)
           \<and> consecutive_failures s3 = MAX_CONSECUTIVE_FAILURES)"
proof -
  have h: "conv_buf_ok adapter0" "consecutive_failures adapter0 = 0" "transfer_fails 2 rx_fail"
    by (simp_all add: conv_buf_ok_def adapter0_def transfer_fails_def rx_fail_def)
  show ?thesis
    using h third_failed_transfer_returns_done [OF h(1) h(2) h(3) h(3) h(3)] by blast
qed

text \<open>
  C2, as stated: once the terminal signal has been given, no later invocation returns a
  positive count. Here the third and fourth invocations return \<open>WORK_DONE\<close> and the fifth,
  whose transfer succeeds, returns 3.
\<close>

theorem positive_count_after_done_counterexample:
  "run adapter0 [(1, rx_fail), (1, rx_fail), (1, rx_fail), (1, rx_fail), (3, rx_ok [5, 6])]
     = Inr ([Items 1, Items 1, WORK_DONE, WORK_DONE, Items 3],
            adapter0\<lparr>conv_buf := [5, 6, 0, 0, 0, 0], conv_buf_size := 3,
                     consecutive_failures := 0\<rparr>)
   \<and> [Items 1, Items 1, WORK_DONE, WORK_DONE, Items 3] ! 4 = Items 3 \<and> (0 :: int) < 3"
  by (simp add: adapter0_def rx_fail_def rx_ok_def work_def ensure_conv_buf_def bladerf_sync_rx_def
      MAX_CONSECUTIVE_FAILURES_def Let_def word_le_nat_alt realloc_def
      upt_rec [of _ "numeral n" for n])

text \<open>
  C2, amended: \<^verbatim>\<open>work\<close> keeps no latch. From the state an invocation that returned
  \<open>WORK_DONE\<close> leaves behind, every further invocation whose transfer fails returns
  \<open>WORK_DONE\<close> again, for as long as the 32-bit counter does not wrap around; an invocation
  whose transfer succeeds returns its requested count and resets the counter. That the
  stream stays finished is the host's doing, which stops invoking \<^verbatim>\<open>work\<close>.
\<close>

theorem done_until_transfer_succeeds:
  assumes "conv_buf_ok s0" and "work s0 n0 c0 = Inr (WORK_DONE, out0, s)"
  shows "((\<forall>(n, c) \<in> set cs. transfer_fails n c)
            \<and> unat (consecutive_failures s) + length cs < 2 ^ 32
          \<longrightarrow> (\<exists>s'. run s cs = Inr (replicate (length cs) WORK_DONE, s')))
       \<and> (transfer_succeeds n c
          \<longrightarrow> (\<exists>out s'. work s n c = Inr (Items n, out, s') \<and> consecutive_failures s' = 0))"
proof -
  have ok: "conv_buf_ok s" using work_conv_buf_ok [OF assms(2,1)] by simp
  have ge: "MAX_CONSECUTIVE_FAILURES \<le> consecutive_failures s"
    using work_done_output [OF assms(2)] by simp
  show ?thesis
    using run_all_fail_done [OF ok ge, of cs] work_succeeds [OF ok, of n c] by blast
qed

lemma adapter0_three_failures:
  "work (adapter0\<lparr>consecutive_failures := 2\<rparr>) 2 rx_fail
     = Inr (WORK_DONE, [], adapter0\<lparr>consecutive_failures := 3\<rparr>)"
  by (simp add: adapter0_def rx_fail_def work_def ensure_conv_buf_def bladerf_sync_rx_def
      MAX_CONSECUTIVE_FAILURES_def Let_def word_le_nat_alt)

theorem done_until_transfer_succeeds_witness:
  "conv_buf_ok (adapter0\<lparr>consecutive_failures := 2\<rparr>)
   \<and> work (adapter0\<lparr>consecutive_failures := 2\<rparr>) 2 rx_fail
       = Inr (WORK_DONE, [], adapter0\<lparr>consecutive_failures := 3\<rparr>)
   \<and> transfer_fails 2 rx_fail \<and> transfer_succeeds 1 (rx_ok [7, 8])
   \<and> (\<exists>s'. run (adapter0\<lparr>consecutive_failures := 3\<rparr>) [(2, rx_fail), (2, rx_fail)]
              = Inr ([WORK_DONE, WORK_DONE], s'))
   \<and> (\<exists>out s'. work (adapter0\<lparr>consecutive_failures := 3\<rparr>) 1 (rx_ok [7, 8])
              = Inr (Items 1, out, s') \<and> consecutive_failures s' = 0)"
proof -
  have h: "conv_buf_ok (adapter0\<lparr>consecutive_failures := 2\<rparr>)"
      "transfer_fails 2 rx_fail" "transfer_succeeds 1 (rx_ok [7, 8])"
    by (simp_all add: conv_buf_ok_def adapter0_def transfer_fails_def transfer_succeeds_def
        rx_fail_def rx_ok_def)
  have u: "unat (consecutive_failures (adapter0\<lparr>consecutive_failures := 3\<rparr>))
             + length [(2 :: int, rx_fail), (2, rx_fail)] < 2 ^ 32"
    by simp
  show ?thesis
    using h u adapter0_three_failures
      done_until_transfer_succeeds [OF h(1) adapter0_three_failures,
        of "[(2, rx_fail), (2, rx_fail)]" 1 "rx_ok [7, 8]"]
    by simp
qed

text \<open>
  C3, as stated: the counter is at most 3 after every sequence of invocations. A fourth
  failing invocation leaves it at 4.
\<close>

theorem counter_exceeds_threshold_counterexample:
  "run adapter0 [(2, rx_fail), (2, rx_fail), (2, rx_fail), (2, rx_fail)]
     = Inr ([Items 2, Items 2, WORK_DONE, WORK_DONE], adapter0\<lparr>consecutive_failures := 4\<rparr>)
   \<and> \<not> consecutive_failures (adapter0\<lparr>consecutive_failures := 4\<rparr>) \<le> MAX_CONSECUTIVE_FAILURES"
  by (simp add: adapter0_def rx_fail_def rx_ok_def work_def ensure_conv_buf_def bladerf_sync_rx_def
      MAX_CONSECUTIVE_FAILURES_def Let_def word_le_nat_alt)

text \<open>
  C3, amended: in every state reached from a counter of 0 by a sequence of invocations in
  which no invocation follows one that returned \<open>WORK_DONE\<close> (the host stops there), the
  counter lies between 0 and the threshold 3.
\<close>

theorem counter_bounded_until_done:
  assumes "run s cs = Inr (rs, s')"
    and "consecutive_failures s = 0"
    and "WORK_DONE \<notin> set (butlast rs)"
  shows "0 \<le> consecutive_failures s' \<and> consecutive_failures s' \<le> MAX_CONSECUTIVE_FAILURES"
  using run_counter_bounded [OF assms(1) _ assms(3)] assms(2)
  by (simp add: MAX_CONSECUTIVE_FAILURES_def)

lemma adapter0_run3:
  "run adapter0 [(2, rx_fail), (2, rx_ok [1, 2, 3, 4]), (2, rx_fail), (2, rx_fail), (2, rx_fail)]
     = Inr ([Items 2, Items 2, Items 2, Items 2, WORK_DONE],
            adapter0\<lparr>conv_buf := [1, 2, 3, 4], consecutive_failures := 3\<rparr>)"
  by (simp add: adapter0_def rx_fail_def rx_ok_def work_def ensure_conv_buf_def bladerf_sync_rx_def
      MAX_CONSECUTIVE_FAILURES_def Let_def word_le_nat_alt)

theorem counter_bounded_until_done_witness:
  "run adapter0 [(2, rx_fail), (2, rx_ok [1, 2, 3, 4]), (2, rx_fail), (2, rx_fail), (2, rx_fail)]
     = Inr ([Items 2, Items 2, Items 2, Items 2, WORK_DONE],
            adapter0\<lparr>conv_buf := [1, 2, 3, 4], consecutive_failures := 3\<rparr>)
   \<and> consecutive_failures adapter0 = 0
   \<and> WORK_DONE \<notin> set (butlast [Items 2, Items 2, Items 2, Items 2, WORK_DONE])
   \<and> consecutive_failures (adapter0\<lparr>conv_buf := [1, 2, 3, 4], consecutive_failures := 3\<rparr>)
        \<le> MAX_CONSECUTIVE_FAILURES"
proof -
  have h: "consecutive_failures adapter0 = 0"
      "WORK_DONE \<notin> set (butlast [Items 2, Items 2, Items 2, Items 2, WORK_DONE])"
    by (simp_all add: adapter0_def)
  show ?thesis
    using h adapter0_run3 counter_bounded_until_done [OF adapter0_run3 h] by simp
qed

text \<open>
  C4. A cycle whose transfer succeeds returns its count and leaves the counter at 0,
  whatever the counter was; of the failing cycles that follow, the first two return their
  counts and only the third returns \<open>WORK_DONE\<close>.
\<close>

theorem success_resets_counter:
  assumes "conv_buf_ok s" and "transfer_succeeds n c"
    and "transfer_fails n1 c1" and "transfer_fails n2 c2" and "transfer_fails n3 c3"
  shows "\<exists>out s1 s'. work s n c = Inr (Items n, out, s1)
           \<and> consecutive_failures s1 = 0
           \<and> run s1 [(n1, c1), (n2, c2), (n3, c3)] = Inr ([Items n1, Items n2, WORK_DONE], s')"
proof -
  obtain out s1 where w: "work s n c = Inr (Items n, out, s1)"
      and ok: "conv_buf_ok s1" and cf: "consecutive_failures s1 = 0"
    using work_succeeds [OF assms(1,2)] by blast
  obtain o1 t1 where w1: "work s1 n1 c1 = Inr (Items n1, o1, t1)"
      and ok1: "conv_buf_ok t1" and cf1: "consecutive_failures t1 = 1"
    using work_fails [OF ok assms(3)] cf
    by (auto simp: MAX_CONSECUTIVE_FAILURES_def word_le_nat_alt)
  obtain o2 t2 where w2: "work t1 n2 c2 = Inr (Items n2, o2, t2)"
      and ok2: "conv_buf_ok t2" and cf2: "consecutive_failures t2 = 2"
    using work_fails [OF ok1 assms(4)] cf1
    by (auto simp: MAX_CONSECUTIVE_FAILURES_def word_le_nat_alt)
  obtain o3 t3 where w3: "work t2 n3 c3 = Inr (WORK_DONE, o3, t3)"
    using work_fails [OF ok2 assms(5)] cf2
    by (auto simp: MAX_CONSECUTIVE_FAILURES_def word_le_nat_alt)
  show ?thesis
    using w cf w1 w2 w3 by auto
qed

theorem success_resets_counter_witness:
  "conv_buf_ok (adapter0\<lparr>consecutive_failures := 2\<rparr>)
   \<and> transfer_succeeds 2 (rx_ok [4, 3, 2, 1]) \<and> transfer_fails 2 rx_fail
   \<and> (\<exists>out s1 s'. work (adapter0\<lparr>consecutive_failures := 2\<rparr>) 2 (rx_ok [4, 3, 2, 1])
                      = Inr (Items 2, out, s1)
           \<and> consecutive_failures s1 = 0
           \<and> run s1 [(2, rx_fail), (2, rx_fail), (2, rx_fail)]
               = Inr ([Items 2, Items 2, WORK_DONE], s'))"
proof -
  have h: "conv_buf_ok (adapter0\<lparr>consecutive_failures := 2\<rparr>)"
      "transfer_succeeds 2 (rx_ok [4, 3, 2, 1])" "transfer_fails 2 rx_fail"
    by (simp_all add: conv_buf_ok_def adapter0_def transfer_fails_def transfer_succeeds_def
        rx_fail_def rx_ok_def)
  show ?thesis
    using h success_resets_counter [OF h(1) h(2) h(3) h(3) h(3)] by blast
qed

subsection \<open>Failed transfers and the scratch buffer\<close>

text \<open>
  C5. A cycle with request \<open>n\<close> whose transfer fails while the counter stays below the
  threshold does not return early: it returns \<open>n\<close> and writes \<open>n\<close> complex items, the
  \<open>2 * n\<close> 16-bit integers that the scratch buffer holds after the failed transfer, each
  divided by 2048.
\<close>

theorem failed_transfer_still_converts:
  assumes "conv_buf_ok s" and "transfer_fails n c"
    and "consecutive_failures s + 1 < MAX_CONSECUTIVE_FAILURES"
  shows "\<exists>s1 out s'. ensure_conv_buf s n c = Inr s1
      \<and> work s n c = Inr (Items n, out, s')
      \<and> conv_buf s' = snd (bladerf_sync_rx (conv_buf s1) (nat n) c)
      \<and> nat (2 * n) \<le> length (conv_buf s')
      \<and> out = map (\<lambda>x. real_of_int (sint x) / 2048) (take (nat (2 * n)) (conv_buf s'))
      \<and> length (gr_complex_items out) = nat n
      \<and> (\<forall>i < nat n. gr_complex_items out ! i =
            Complex (real_of_int (sint (conv_buf s' ! (2 * i))) / 2048)
                    (real_of_int (sint (conv_buf s' ! (2 * i + 1))) / 2048))"
proof -
  have nle: "\<not> MAX_CONSECUTIVE_FAILURES \<le> consecutive_failures s + 1"
    using assms(3) by simp
  obtain out s' where w: "work s n c = Inr (Items n, out, s')" and ok': "conv_buf_ok s'"
      and sz: "conv_buf_size s' = max n (conv_buf_size s)"
    using work_cycle [of s n c] assms(1,2) nle by (auto simp: transfer_fails_def)
  from work_Inr [OF w] obtain s1 where s1: "ensure_conv_buf s n c = Inr s1"
      and n0: "0 \<le> n"
      and buf: "conv_buf s' = snd (bladerf_sync_rx (conv_buf s1) (nat n) c)"
      and out: "out = volk_16i_s32f_convert_32f (conv_buf s') scaling (nat (2 * n))"
    by auto
  have len: "nat (2 * n) \<le> length (conv_buf s')"
    using ok' sz n0 by (simp add: conv_buf_ok_def)
  have out': "out = map (\<lambda>x. real_of_int (sint x) / 2048) (take (nat (2 * n)) (conv_buf s'))"
    using out by (simp add: volk_16i_s32f_convert_32f_def scaling_def)
  have lo: "length out = 2 * nat n"
    using out' len n0 by simp
  have items: "length (gr_complex_items out) = nat n"
    using lo by (simp add: gr_complex_items_length)
  have nth: "gr_complex_items out ! i =
            Complex (real_of_int (sint (conv_buf s' ! (2 * i))) / 2048)
                    (real_of_int (sint (conv_buf s' ! (2 * i + 1))) / 2048)"
    if i: "i < nat n" for i
  proof -
    have "i < length out div 2" using i lo by simp
    then have "gr_complex_items out ! i = Complex (out ! (2 * i)) (out ! (2 * i + 1))"
      by (rule gr_complex_items_nth)
    moreover have "2 * i < nat (2 * n)" "2 * i + 1 < nat (2 * n)" using i n0 by simp_all
    ultimately show ?thesis
      using len unfolding out' by simp
  qed
  show ?thesis
    using s1 w buf len out' items nth by blast
qed

theorem failed_transfer_still_converts_witness:
  "conv_buf_ok stale \<and> transfer_fails 2 rx_fail
   \<and> consecutive_failures stale + 1 < MAX_CONSECUTIVE_FAILURES
   \<and> work stale 2 rx_fail
       = Inr (Items 2, [1, - 1, 0, 1 / 2], stale\<lparr>consecutive_failures := 2\<rparr>)
   \<and> gr_complex_items [1, - 1, 0, 1 / 2] = [Complex 1 (- 1), Complex 0 (1 / 2)]
   \<and> (\<exists>s1 out s'. ensure_conv_buf stale 2 rx_fail = Inr s1
      \<and> work stale 2 rx_fail = Inr (Items 2, out, s')
      \<and> conv_buf s' = snd (bladerf_sync_rx (conv_buf s1) (nat 2) rx_fail)
      \<and> nat (2 * 2) \<le> length (conv_buf s')
      \<and> out = map (\<lambda>x. real_of_int (sint x) / 2048) (take (nat (2 * 2)) (conv_buf s'))
      \<and> length (gr_complex_items out) = nat 2
      \<and> (\<forall>i < nat 2. gr_complex_items out ! i =
            Complex (real_of_int (sint (conv_buf s' ! (2 * i))) / 2048)
                    (real_of_int (sint (conv_buf s' ! (2 * i + 1))) / 2048)))"
proof -
  have h: "conv_buf_ok stale" "transfer_fails 2 rx_fail"
      "consecutive_failures stale + 1 < MAX_CONSECUTIVE_FAILURES"
    by (simp_all add: stale_def conv_buf_ok_def adapter0_def transfer_fails_def rx_fail_def
        MAX_CONSECUTIVE_FAILURES_def word_less_nat_alt)
  have e: "work stale 2 rx_fail
       = Inr (Items 2, [1, - 1, 0, 1 / 2], stale\<lparr>consecutive_failures := 2\<rparr>)"
    by (simp add: stale_def adapter0_def rx_fail_def work_def ensure_conv_buf_def
        bladerf_sync_rx_def MAX_CONSECUTIVE_FAILURES_def Let_def word_le_nat_alt
        volk_16i_s32f_convert_32f_def scaling_def)
  have g: "gr_complex_items [1, - 1, 0, 1 / 2] = [Complex 1 (- 1), Complex 0 (1 / 2)]"
    by simp
  show ?thesis
    using h e g failed_transfer_still_converts [OF h] by blast
qed

text \<open>
  The growth step of a cycle that does not throw: \<^verbatim>\<open>work\<close> returns, and the buffer it
  hands to the transfer (the one lines 140-151 leave behind) holds the request; neither the
  recorded size nor the block shrinks, and the cycle ends with the capacity of the transfer.
  Over a run, \<open>run_conv_buf_ok\<close> gives the same from the first cycle to the last.
\<close>

lemma work_grows_before_transfer:
  assumes "conv_buf_ok s" and "0 \<le> n" and "n < 2 ^ 30"
    and "conv_buf_size s < n \<Longrightarrow> \<not> realloc_null c"
  shows "\<exists>s1 r out s'. ensure_conv_buf s n c = Inr s1
      \<and> n \<le> conv_buf_size s1 \<and> nat (2 * n) \<le> length (conv_buf s1)
      \<and> conv_buf_size s \<le> conv_buf_size s1 \<and> length (conv_buf s) \<le> length (conv_buf s1)
      \<and> work s n c = Inr (r, out, s')
      \<and> conv_buf s' = snd (bladerf_sync_rx (conv_buf s1) (nat n) c)
      \<and> conv_buf_size s' = conv_buf_size s1 \<and> length (conv_buf s') = length (conv_buf s1)
      \<and> conv_buf_ok s'"
proof -
  obtain out s' where w: "work s n c =
            Inr (if sync_rx_ret c \<noteq> 0 \<and> MAX_CONSECUTIVE_FAILURES \<le> consecutive_failures s + 1
                 then WORK_DONE else Items n, out, s')" and ok': "conv_buf_ok s'"
    using work_cycle [OF assms] by blast
  from work_Inr [OF w] obtain s1 where s1: "ensure_conv_buf s n c = Inr s1"
      and len: "nat (2 * n) \<le> length (conv_buf s1)"
      and sz: "conv_buf_size s' = conv_buf_size s1"
      and buf: "conv_buf s' = snd (bladerf_sync_rx (conv_buf s1) (nat n) c)"
    by blast
  note e = ensure_conv_buf_Inr [OF s1]
  have ok1: "conv_buf_ok s1" using e(4) assms(1) by simp
  have a: "n \<le> conv_buf_size s1" "conv_buf_size s \<le> conv_buf_size s1" using e(1) by simp_all
  have b: "length (conv_buf s) \<le> length (conv_buf s1)"
    using a assms(1) ok1 by (simp add: conv_buf_ok_def)
  have "2 * nat n \<le> length (conv_buf s1)" using len assms(2) by simp
  then have l: "length (conv_buf s') = length (conv_buf s1)"
    unfolding buf by (rule sync_rx_length)
  show ?thesis
    using s1 a len b w buf sz l ok' by blast
qed

text \<open>
  A cycle that throws: \<^verbatim>\<open>realloc\<close> returned \<^verbatim>\<open>NULL\<close> after line 143 had raised the
  recorded size, so the object left behind records the request as its size over the old,
  smaller block. A further cycle with the same request does not grow the buffer and
  transfers beyond the block.
\<close>

lemma work_throws:
  assumes "work s n c = Inl (Runtime_error msg s')"
  shows "s' = s\<lparr>conv_buf_size := n\<rparr> \<and> conv_buf_size s < n \<and> realloc_null c
         \<and> 0 \<le> n \<and> n < 2 ^ 30"
  using assms
  by (auto simp: work_def ensure_conv_buf_def Let_def split: if_splits sum.splits prod.splits)

lemma failed_realloc_leaves_undersized_block:
  assumes "conv_buf_ok s" and "work s n c = Inl (Runtime_error msg s')"
  shows "conv_buf_size s' = n \<and> length (conv_buf s') < nat (2 * n)
         \<and> ensure_conv_buf s' n c' = Inr s'
         \<and> work s' n c' = Inl Undefined_behaviour"
proof -
  from work_throws [OF assms(2)] have s': "s' = s\<lparr>conv_buf_size := n\<rparr>"
    and lt: "conv_buf_size s < n" and n: "0 \<le> n" "n < 2 ^ 30"
    by simp_all
  have len: "length (conv_buf s') < nat (2 * n)"
    using assms(1) lt unfolding s' by (simp add: conv_buf_ok_def)
  have e: "ensure_conv_buf s' n c' = Inr s'"
    unfolding s' by (simp add: ensure_conv_buf_def)
  show ?thesis
    using len e n unfolding s' by (simp add: work_def)
qed

text \<open>
  C7. The capacity at the time of each transfer is at least the request, for every sequence
  of cycles: the code breaks this after a failed \<^verbatim>\<open>realloc\<close>. With a buffer of two
  samples and a request of three, the first cycle throws and leaves the recorded size at 3
  over a block of four elements; the next cycle with request 3 does not grow the buffer
  and the driver stores six elements into it.
\<close>

theorem failed_realloc_then_undersized_transfer:
  "conv_buf_ok adapter0
   \<and> work adapter0 3 rx_nomem
       = Inl (Runtime_error ''workFailed to realloc _conv_buf'' (adapter0\<lparr>conv_buf_size := 3\<rparr>))
   \<and> conv_buf_size (adapter0\<lparr>conv_buf_size := 3\<rparr>) = 3
   \<and> length (conv_buf (adapter0\<lparr>conv_buf_size := 3\<rparr>)) = 4
   \<and> ensure_conv_buf (adapter0\<lparr>conv_buf_size := 3\<rparr>) 3 (rx_ok [1, 2, 3, 4, 5, 6])
       = Inr (adapter0\<lparr>conv_buf_size := 3\<rparr>)
   \<and> length (snd (bladerf_sync_rx (conv_buf (adapter0\<lparr>conv_buf_size := 3\<rparr>)) 3
                    (rx_ok [1, 2, 3, 4, 5, 6]))) = 6
   \<and> work (adapter0\<lparr>conv_buf_size := 3\<rparr>) 3 (rx_ok [1, 2, 3, 4, 5, 6]) = Inl Undefined_behaviour"
  by (simp add: conv_buf_ok_def adapter0_def rx_nomem_def rx_ok_def work_def ensure_conv_buf_def
      bladerf_sync_rx_def Let_def)

subsection \<open>Rounding\<close>

lemma ldexp_add: "ldexp m (e + int K) = ldexp (m * 2 ^ K) e"
proof -
  have "(2 :: real) powi (e + int K) = 2 powi e * 2 ^ K"
    by (simp add: power_int_add)
  then show ?thesis by (simp add: ldexp_def)
qed

lemma ldexp_three_quarters: "ldexp (m * 3) (e - 2) = ldexp m e * 0.75"
proof -
  have "(2 :: real) powi (e - 2) = 2 powi e / 2 powi 2"
    by (rule power_int_diff) simp
  then show ?thesis by (simp add: ldexp_def)
qed

lemma round_to_double_exact:
  assumes "bitlen \<bar>m\<bar> \<le> 53" and "- 1074 \<le> e" and "bitlen \<bar>m\<bar> + e \<le> 1024"
  shows "round_to_double m e = Finite m e"
  using assms by (simp add: round_to_double_def)

lemma round_half_even_int:
  fixes m :: int
  assumes "0 < K"
  defines "q \<equiv> m div 2 ^ K" and "r \<equiv> m mod 2 ^ K" and "h \<equiv> (2 :: int) ^ (K - 1)"
  defines "m' \<equiv> (if r < h \<or> (r = h \<and> even q) then q else q + 1)"
  shows "\<bar>m' * 2 ^ K - m\<bar> \<le> h"
proof -
  have p: "(2 :: int) ^ K = 2 * h"
    using assms(1) unfolding h_def by (cases K) simp_all
  have "m = q * 2 ^ K + r"
    unfolding q_def r_def by (rule div_mult_mod_eq [symmetric])
  moreover have "0 \<le> r" and "r < 2 ^ K"
    unfolding r_def by simp_all
  ultimately have m: "m = q * (2 * h) + r" and r: "0 \<le> r" "r < 2 * h"
    unfolding p by simp_all
  show ?thesis
  proof (cases "r < h \<or> (r = h \<and> even q)")
    case True
    then have "m' = q" and "r \<le> h" unfolding m'_def by auto
    then show ?thesis using m r unfolding p by (simp add: algebra_simps)
  next
    case False
    then have "m' = q + 1" and "h \<le> r" unfolding m'_def by auto
    then show ?thesis using m r unfolding p by (simp add: algebra_simps)
  qed
qed

lemma round_to_double_nearest:
  assumes "round_to_double m e = Finite m' e'"
  shows "\<bar>ldexp m' e' - ldexp m e\<bar> \<le> 2 powi e' / 2"
proof -
  define k where "k = max (bitlen \<bar>m\<bar> - 53) (- 1074 - e)"
  show ?thesis
  proof (cases "k \<le> 0")
    case True
    then have "m' = m" and "e' = e"
      using assms unfolding round_to_double_def k_def [symmetric]
      by (simp_all add: Let_def split: if_splits)
    then show ?thesis by simp
  next
    case False
    define K where "K = nat k"
    have K: "0 < K" "k = int K" using False by (simp_all add: K_def)
    define mm where "mm = (if m mod 2 ^ K < 2 ^ (K - 1)
        \<or> (m mod 2 ^ K = 2 ^ (K - 1) \<and> even (m div 2 ^ K)) then m div 2 ^ K else m div 2 ^ K + 1)"
    have res: "m' = mm" "e' = e + int K"
      using assms False K(2) unfolding round_to_double_def k_def [symmetric] mm_def K_def
      by (simp_all add: Let_def nat_diff_distrib split: if_splits)
    have bound: "\<bar>mm * 2 ^ K - m\<bar> \<le> 2 ^ (K - 1)"
      unfolding mm_def using round_half_even_int [OF K(1), of m] by simp
    have "ldexp m' e' - ldexp m e = real_of_int (mm * 2 ^ K - m) * 2 powi e"
      unfolding res ldexp_add by (simp add: ldexp_def algebra_simps)
    then have "\<bar>ldexp m' e' - ldexp m e\<bar> = real_of_int \<bar>mm * 2 ^ K - m\<bar> * 2 powi e"
      by (simp add: abs_mult)
    also have "\<dots> \<le> real_of_int (2 ^ (K - 1)) * 2 powi e"
      using bound by (intro mult_right_mono) (simp_all only: of_int_le_iff, simp)
    also have "\<dots> = 2 powi e' / 2"
    proof -
      have "(2 :: real) powi e' = 2 powi e * 2 ^ K"
        unfolding res by (simp add: power_int_add)
      moreover have "(2 :: real) ^ K = 2 * 2 ^ (K - 1)"
        using K(1) by (cases K) simp_all
      ultimately show ?thesis by simp
    qed
    finally show ?thesis .
  qed
qed

subsection \<open>Automatic bandwidth\<close>

lemma double_mult_three_quarters_exact:
  assumes "bitlen \<bar>m * 3\<bar> \<le> 53" and "- 1072 \<le> e" and "bitlen \<bar>m * 3\<bar> + e \<le> 1026"
  shows "double_mult (Finite m e) three_quarters = Finite (m * 3) (e - 2)"
  using assms round_to_double_exact [of "m * 3" "e - 2"]
  by (simp add: three_quarters_def)

lemma double_mult_three_quarters_nearest:
  assumes "double_mult (Finite m e) three_quarters = Finite m' e'"
  shows "\<bar>ldexp m' e' - ldexp m e * 0.75\<bar> \<le> 2 powi e' / 2"
proof -
  have "round_to_double (m * 3) (e - 2) = Finite m' e'"
    using assms by (simp add: three_quarters_def)
  then show ?thesis
    using round_to_double_nearest [of "m * 3" "e - 2" m' e']
    by (simp only: ldexp_three_quarters)
qed

lemma floor_three_quarters: "\<lfloor>real k * 0.75\<rfloor> = int (3 * k div 4)"
proof -
  have "real k * 0.75 = real_of_int (int (3 * k)) / real_of_int 4" by simp
  then have "\<lfloor>real k * 0.75\<rfloor> = int (3 * k) div 4"
    by (simp only: floor_divide_of_int_eq)
  then show ?thesis by (simp add: zdiv_int)
qed

lemma three_quarters_bounds:
  "real (3 * k div 4) \<le> real k * 0.75 \<and> real k * 0.75 < real (3 * k div 4) + 1"
proof -
  have "real_of_int \<lfloor>real k * 0.75\<rfloor> \<le> real k * 0.75"
    and "real k * 0.75 < real_of_int \<lfloor>real k * 0.75\<rfloor> + 1"
    by linarith+
  then show ?thesis
    unfolding floor_three_quarters by (simp only: of_int_of_nat_eq)
qed

lemma whole_hertz_product:
  assumes "3 * k div 4 < 2 ^ 32"
  shows "double_mult (Finite (int k) 0) three_quarters = Finite (int k * 3) (- 2)"
    and "ldexp (int k * 3) (- 2) = real k * 0.75"
    and "to_uint32_t (Finite (int k * 3) (- 2)) = Some (word_of_nat (3 * k div 4))"
proof -
  have "3 * k < 2 ^ 34" using assms by simp
  then have "int k * 3 < 2 ^ 53" by simp
  then have b: "bitlen \<bar>int k * 3\<bar> \<le> 53"
    by (simp add: bitlen_le_iff_power)
  show "double_mult (Finite (int k) 0) three_quarters = Finite (int k * 3) (- 2)"
    using double_mult_three_quarters_exact [of "int k" 0] b by simp
  show v: "ldexp (int k * 3) (- 2) = real k * 0.75"
    using ldexp_three_quarters [of "int k" 0] by (simp add: ldexp_def)
  have "3 * k div 4 + 1 \<le> 2 ^ 32" using assms by simp
  then have "real (3 * k div 4 + 1) \<le> real (2 ^ 32)" by (simp only: of_nat_le_iff)
  then have "real (3 * k div 4) + 1 \<le> 2 ^ 32" by simp
  then have "\<not> 2 ^ 32 \<le> real k * 0.75"
    using three_quarters_bounds [of k] by linarith
  moreover have nonneg: "0 \<le> real k * 0.75" by simp
  then have "\<not> real k * 0.75 \<le> - 1" by linarith
  ultimately have "to_uint32_t (Finite (int k * 3) (- 2))
      = Some (word_of_int \<lfloor>real k * 0.75\<rfloor>)"
    using nonneg by (simp only: to_uint32_t.simps v Let_def simp_thms if_False if_True)
  then show "to_uint32_t (Finite (int k * 3) (- 2)) = Some (word_of_nat (3 * k div 4))"
    unfolding floor_three_quarters by simp
qed

lemma set_bandwidth_zero_eq:
  "set_bandwidth s d (Finite 0 z) chan
     = set_bandwidth s d (double_mult (get_sample_rate s) three_quarters) chan"
  by (simp add: set_bandwidth_def Let_def)

lemma set_bandwidth_zero_request:
  assumes "to_uint32_t (double_mult (get_sample_rate s) three_quarters) = Some request"
  shows "fst (set_bandwidth s d (Finite 0 z) chan) \<noteq> []
       \<and> hd (fst (set_bandwidth s d (Finite 0 z) chan)) = Bladerf_set_bandwidth request"
  using assms by (simp add: set_bandwidth_def get_bandwidth_def Let_def)

lemma set_bandwidth_zero_undefined:
  assumes "to_uint32_t (double_mult (get_sample_rate s) three_quarters) = None"
  shows "set_bandwidth s d (Finite 0 z) chan = ([], Inl Undefined_behaviour)"
  using assms by (simp add: set_bandwidth_def Let_def)

lemma to_uint32_t_floor:
  assumes "0 \<le> ldexp m e" and "ldexp m e < 2 ^ 32"
  shows "to_uint32_t (Finite m e) = Some (word_of_int \<lfloor>ldexp m e\<rfloor>)"
  using assms by (simp add: Let_def)

text \<open>
  The model follows the double arithmetic where it differs from the real one: at the rate
  3752999689475413 * 2 ^ -49 the real product is below 5, the double product is a tie
  that rounds to 5, and the driver is asked for 5.
\<close>

lemma set_bandwidth_zero_rounds_as_doubles_do:
  "get_sample_rate rate_tie = Finite 3752999689475413 (- 49)
   \<and> is_binary64 (Finite 3752999689475413 (- 49))
   \<and> ldexp 3752999689475413 (- 49) * 0.75 < 5
   \<and> double_mult (Finite 3752999689475413 (- 49)) three_quarters = Finite 5629499534213120 (- 50)
   \<and> ldexp 5629499534213120 (- 50) = 5
   \<and> hd (fst (set_bandwidth rate_tie (driver_ok 5) (Finite 0 0) 0)) = Bladerf_set_bandwidth 5"
proof -
  have p: "double_mult (Finite 3752999689475413 (- 49)) three_quarters
             = Finite 5629499534213120 (- 50)"
    by code_simp
  have b: "is_binary64 (Finite 3752999689475413 (- 49))"
    by (simp add: is_binary64_def bitlen_le_iff_power)
  have u: "to_uint32_t (Finite 5629499534213120 (- 50)) = Some 5"
    by (simp add: ldexp_def)
  have r: "get_sample_rate rate_tie = Finite 3752999689475413 (- 49)"
    by (simp add: get_sample_rate_def rate_tie_def)
  have "hd (fst (set_bandwidth rate_tie (driver_ok 5) (Finite 0 0) 0)) = Bladerf_set_bandwidth 5"
    using set_bandwidth_zero_request [of rate_tie 5 "driver_ok 5" 0 0] p u r by simp
  then show ?thesis
    using p b r by (simp add: ldexp_def)
qed

text \<open>
  The same at the double nearest to 1000001.3333333333 Hz: the real product is below
  750001, the double product is 750001, and that is what the conversion gives.
\<close>

lemma double_product_rounds_up_to_integer:
  "is_binary64 (Finite 4294973022623061 (- 32))
   \<and> ldexp 4294973022623061 (- 32) * 0.75 < 750001
   \<and> double_mult (Finite 4294973022623061 (- 32)) three_quarters = Finite 6442459533934592 (- 33)
   \<and> ldexp 6442459533934592 (- 33) = 750001
   \<and> to_uint32_t (Finite 6442459533934592 (- 33)) = Some 750001"
proof -
  have p: "double_mult (Finite 4294973022623061 (- 32)) three_quarters
             = Finite 6442459533934592 (- 33)"
    by code_simp
  have b: "is_binary64 (Finite 4294973022623061 (- 32))"
    by (simp add: is_binary64_def bitlen_le_iff_power)
  show ?thesis
    using p b by (simp add: ldexp_def)
qed

text \<open>
  C8, as stated: with argument 0 the block applies 0.75 times the sample rate to the
  hardware. At 1000001 samples per second the product is computed exactly, 750000.75, and
  the driver is asked for 750000.
\<close>

theorem set_bandwidth_zero_counterexample:
  "get_sample_rate rate_1000001 = Finite 1000001 0
   \<and> double_mult (Finite 1000001 0) three_quarters = Finite 3000003 (- 2)
   \<and> ldexp 3000003 (- 2) = 0.75 * 1000001
   \<and> set_bandwidth rate_1000001 (driver_ok 750000) (Finite 0 0) 0
       = ([Bladerf_set_bandwidth 750000, Bladerf_get_bandwidth], Inr (Finite 750000 0))
   \<and> real (unat (750000 :: uint32_t)) \<noteq> 0.75 * 1000001"
proof -
  have p: "double_mult (Finite 1000001 0) three_quarters = Finite 3000003 (- 2)"
    by code_simp
  have v: "ldexp 3000003 (- 2) = 0.75 * 1000001"
    by (simp add: ldexp_def)
  have "to_uint32_t (Finite 3000003 (- 2)) = Some 750000"
    by (simp add: ldexp_def)
  then have "set_bandwidth rate_1000001 (driver_ok 750000) (Finite 0 0) 0
       = ([Bladerf_set_bandwidth 750000, Bladerf_get_bandwidth], Inr (Finite 750000 0))"
    using p by (simp add: set_bandwidth_def get_bandwidth_def get_sample_rate_def
        rate_1000001_def driver_ok_def of_uint32_t_def Let_def)
  then show ?thesis
    using p v by (simp add: get_sample_rate_def rate_1000001_def)
qed

text \<open>
  C8, amended: with argument 0 the block computes the double product of the current sample
  rate and 0.75 and hands it to the driver converted to \<^verbatim>\<open>uint32_t\<close>, as it does with
  an explicit bandwidth of that value, for every sample rate: the driver is asked for the
  product truncated towards zero, and the call is undefined when that is not a
  \<^verbatim>\<open>uint32_t\<close>. The double product is within half a unit in its last place of 0.75
  times the rate, and equal to it when three times the significand of the rate fits 53
  bits; for a rate of \<open>k\<close> Hz the driver is asked for \<open>3 * k div 4\<close>, which is at most
  0.75 times the rate and equal to it exactly when \<open>k\<close> is a multiple of 4.
\<close>

theorem set_bandwidth_zero_requests_truncated_product:
  "set_bandwidth s d (Finite 0 z) chan
     = set_bandwidth s d (double_mult (get_sample_rate s) three_quarters) chan
   \<and> (to_uint32_t (double_mult (get_sample_rate s) three_quarters) = Some request \<longrightarrow>
        fst (set_bandwidth s d (Finite 0 z) chan) \<noteq> []
        \<and> hd (fst (set_bandwidth s d (Finite 0 z) chan)) = Bladerf_set_bandwidth request)
   \<and> (to_uint32_t (double_mult (get_sample_rate s) three_quarters) = None \<longrightarrow>
        set_bandwidth s d (Finite 0 z) chan = ([], Inl Undefined_behaviour))
   \<and> (get_sample_rate s = Finite m e
        \<and> double_mult (Finite m e) three_quarters = Finite m' e' \<longrightarrow>
        \<bar>ldexp m' e' - ldexp m e * 0.75\<bar> \<le> 2 powi e' / 2
        \<and> (0 \<le> ldexp m' e' \<and> ldexp m' e' < 2 ^ 32 \<longrightarrow>
             hd (fst (set_bandwidth s d (Finite 0 z) chan))
               = Bladerf_set_bandwidth (word_of_int \<lfloor>ldexp m' e'\<rfloor>)))
   \<and> (get_sample_rate s = Finite m e
        \<and> bitlen \<bar>m * 3\<bar> \<le> 53 \<and> - 1072 \<le> e \<and> bitlen \<bar>m * 3\<bar> + e \<le> 1026 \<longrightarrow>
        double_mult (Finite m e) three_quarters = Finite (m * 3) (e - 2)
        \<and> ldexp (m * 3) (e - 2) = ldexp m e * 0.75)
   \<and> (get_sample_rate s = Finite (int k) 0 \<and> 3 * k div 4 < 2 ^ 32 \<longrightarrow>
        hd (fst (set_bandwidth s d (Finite 0 z) chan))
          = Bladerf_set_bandwidth (word_of_nat (3 * k div 4))
        \<and> unat (word_of_nat (3 * k div 4) :: uint32_t) = 3 * k div 4
        \<and> real (3 * k div 4) \<le> 0.75 * real k
        \<and> (real (3 * k div 4) = 0.75 * real k \<longleftrightarrow> 4 dvd k))"
proof -
  let ?p = "double_mult (get_sample_rate s) three_quarters"
  let ?calls = "fst (set_bandwidth s d (Finite 0 z) chan)"
  have c1: "set_bandwidth s d (Finite 0 z) chan = set_bandwidth s d ?p chan"
    by (rule set_bandwidth_zero_eq)
  have c2: "?calls \<noteq> [] \<and> hd ?calls = Bladerf_set_bandwidth request"
    if "to_uint32_t ?p = Some request"
    using that by (rule set_bandwidth_zero_request)
  have c3: "set_bandwidth s d (Finite 0 z) chan = ([], Inl Undefined_behaviour)"
    if "to_uint32_t ?p = None"
    using that by (rule set_bandwidth_zero_undefined)
  have c4: "\<bar>ldexp m' e' - ldexp m e * 0.75\<bar> \<le> 2 powi e' / 2
        \<and> (0 \<le> ldexp m' e' \<and> ldexp m' e' < 2 ^ 32 \<longrightarrow>
             hd ?calls = Bladerf_set_bandwidth (word_of_int \<lfloor>ldexp m' e'\<rfloor>))"
    if r: "get_sample_rate s = Finite m e"
      and p: "double_mult (Finite m e) three_quarters = Finite m' e'"
  proof -
    have "hd ?calls = Bladerf_set_bandwidth (word_of_int \<lfloor>ldexp m' e'\<rfloor>)"
      if "0 \<le> ldexp m' e'" and "ldexp m' e' < 2 ^ 32"
    proof -
      have "to_uint32_t ?p = Some (word_of_int \<lfloor>ldexp m' e'\<rfloor>)"
        unfolding r p using that by (rule to_uint32_t_floor)
      then show ?thesis using set_bandwidth_zero_request by blast
    qed
    then show ?thesis
      using double_mult_three_quarters_nearest [OF p] by blast
  qed
  have c5: "double_mult (Finite m e) three_quarters = Finite (m * 3) (e - 2)
        \<and> ldexp (m * 3) (e - 2) = ldexp m e * 0.75"
    if "bitlen \<bar>m * 3\<bar> \<le> 53" and "- 1072 \<le> e" and "bitlen \<bar>m * 3\<bar> + e \<le> 1026"
    using double_mult_three_quarters_exact [OF that] ldexp_three_quarters by blast
  have c6: "hd ?calls = Bladerf_set_bandwidth (word_of_nat (3 * k div 4))
        \<and> unat (word_of_nat (3 * k div 4) :: uint32_t) = 3 * k div 4
        \<and> real (3 * k div 4) \<le> 0.75 * real k
        \<and> (real (3 * k div 4) = 0.75 * real k \<longleftrightarrow> 4 dvd k)"
    if r: "get_sample_rate s = Finite (int k) 0" and k: "3 * k div 4 < 2 ^ 32"
  proof -
    have "to_uint32_t ?p = Some (word_of_nat (3 * k div 4))"
      unfolding r whole_hertz_product(1) [OF k] by (rule whole_hertz_product(3) [OF k])
    then have call: "hd ?calls = Bladerf_set_bandwidth (word_of_nat (3 * k div 4))"
      using set_bandwidth_zero_request by blast
    have un: "unat (word_of_nat (3 * k div 4) :: uint32_t) = 3 * k div 4"
      using k by (simp add: unat_of_nat)
    have le: "real (3 * k div 4) \<le> 0.75 * real k"
      using three_quarters_bounds [of k] by simp
    have "real (3 * k div 4) = 0.75 * real k \<longleftrightarrow> real (4 * (3 * k div 4)) = real (3 * k)"
      by (simp add: mult.commute)
    also have "\<dots> \<longleftrightarrow> 4 * (3 * k div 4) = 3 * k" by (simp only: of_nat_eq_iff)
    also have "\<dots> \<longleftrightarrow> 4 dvd k" by presburger
    finally show ?thesis using call un le by blast
  qed
  show ?thesis
    using c1 c2 c3 c4 c5 c6 by blast
qed

theorem set_bandwidth_zero_witness:
  "get_sample_rate rate_1000001 = Finite (int 1000001) 0
   \<and> double_mult (Finite 1000001 0) three_quarters = Finite 3000003 (- 2)
   \<and> to_uint32_t (double_mult (get_sample_rate rate_1000001) three_quarters) = Some 750000
   \<and> 0 \<le> ldexp 3000003 (- 2) \<and> ldexp 3000003 (- 2) < 2 ^ 32
   \<and> bitlen \<bar>1000001 * 3\<bar> \<le> 53 \<and> 3 * 1000001 div 4 < (2 :: nat) ^ 32
   \<and> hd (fst (set_bandwidth rate_1000001 (driver_ok 750000) (Finite 0 0) 0))
        = Bladerf_set_bandwidth 750000
   \<and> \<bar>ldexp 3000003 (- 2) - ldexp 1000001 0 * 0.75\<bar> \<le> 2 powi (- 2) / 2
   \<and> to_uint32_t (double_mult (get_sample_rate rate_too_high) three_quarters) = None
   \<and> set_bandwidth rate_too_high (driver_ok 0) (Finite 0 0) 0 = ([], Inl Undefined_behaviour)"
proof -
  have r: "get_sample_rate rate_1000001 = Finite (int 1000001) 0"
    by (simp add: get_sample_rate_def rate_1000001_def)
  have r': "get_sample_rate rate_1000001 = Finite 1000001 0"
    by (simp add: get_sample_rate_def rate_1000001_def)
  have p: "double_mult (Finite 1000001 0) three_quarters = Finite 3000003 (- 2)"
    by code_simp
  have u: "to_uint32_t (double_mult (get_sample_rate rate_1000001) three_quarters) = Some 750000"
    unfolding r' p by (simp add: ldexp_def)
  have v: "0 \<le> ldexp 3000003 (- 2)" "ldexp 3000003 (- 2) < 2 ^ 32"
    by (simp_all add: ldexp_def)
  have b: "bitlen \<bar>1000001 * 3\<bar> \<le> 53" "3 * 1000001 div 4 < (2 :: nat) ^ 32"
    by (simp_all add: bitlen_le_iff_power)
  have h: "get_sample_rate rate_too_high = Finite 1 40"
    by (simp add: get_sample_rate_def rate_too_high_def)
  have hp: "double_mult (Finite 1 40) three_quarters = Finite 3 38"
    by code_simp
  have n: "to_uint32_t (double_mult (get_sample_rate rate_too_high) three_quarters) = None"
    unfolding h hp by (simp add: ldexp_def)
  note a = set_bandwidth_zero_requests_truncated_product
    [of rate_1000001 "driver_ok 750000" 0 0 750000 1000001 0 3000003 "- 2" 1000001]
  note c = set_bandwidth_zero_requests_truncated_product
    [of rate_too_high "driver_ok 0" 0 0 0 1 40 3 38 0]
  have a1: "hd (fst (set_bandwidth rate_1000001 (driver_ok 750000) (Finite 0 0) 0))
        = Bladerf_set_bandwidth 750000"
    using a u by blast
  have a2: "\<bar>ldexp 3000003 (- 2) - ldexp 1000001 0 * 0.75\<bar> \<le> 2 powi (- 2) / 2"
    using a r' p by blast
  have c1: "set_bandwidth rate_too_high (driver_ok 0) (Finite 0 0) 0 = ([], Inl Undefined_behaviour)"
    using c n by blast
  show ?thesis
    using r p u v b a1 a2 n c1 by blast
qed

end
